theory Spec2Isabelle
  imports Complex_Main
begin

section \<open>Mask math of the dye sequence finder\<close>

text \<open>
  The program (\<^verbatim>\<open>uhhhhh.py\<close>) is a small web application around a breadth-first
  search over masks. This theory embeds the mask arithmetic, the search and the two
  places of the request layer that feed the search (the session hook and the target
  parsing of the home route).

  Python integers are unbounded, so every number is an \<^typ>\<open>int\<close>. An RGB value and a
  mask are Python 3-tuples of integers. Dye tokens are Python strings. Exceptions are
  values of the type \<open>error\<close>; a function that can raise returns \<open>error + 'a\<close> with
  \<open>Inl\<close> for the exception.
\<close>

datatype error = ValueError | OverflowError | KeyError

type_synonym rgb = "int \<times> int \<times> int"
type_synonym mask = "int \<times> int \<times> int"

subsection \<open>Configuration\<close>

text \<open>
  The four entries the program stores in the process-wide \<^verbatim>\<open>app.config\<close>. Every
  function that reads \<^verbatim>\<open>app.config\<close> takes the configuration as an argument here.
\<close>

record config =
  START_RGB :: rgb
  ADD_VALUE :: int
  SUB_VALUE :: int
  MAX_DEPTH :: int

definition initial_config :: config where
  "initial_config =
     \<lparr>START_RGB = (241, 219, 29), ADD_VALUE = 32, SUB_VALUE = 16, MAX_DEPTH = 48\<rparr>"

definition DYES :: "string list" where
  "DYES = [''red'', ''green'', ''blue'', ''black'']"

subsection \<open>Mask math\<close>

definition clamp255 :: "int \<Rightarrow> int" where
  "clamp255 x = max 0 (min 255 x)"

definition dye_vector :: "string \<Rightarrow> int \<Rightarrow> int \<Rightarrow> error + (int \<times> int \<times> int)" where
  "dye_vector dye add_val sub_val =
     (if dye = ''red'' then Inr (add_val, - sub_val, - sub_val)
      else if dye = ''green'' then Inr (- sub_val, add_val, - sub_val)
      else if dye = ''blue'' then Inr (- sub_val, - sub_val, add_val)
      else if dye = ''black'' then Inr (- 32, - 32, - 32)
      else Inl ValueError)"

definition apply_dye_to_mask :: "config \<Rightarrow> mask \<Rightarrow> string \<Rightarrow> error + mask" where
  "apply_dye_to_mask cfg msk dye =
     (let add_val = ADD_VALUE cfg;
          sub_val = SUB_VALUE cfg
      in case dye_vector dye add_val sub_val of
           Inl e \<Rightarrow> Inl e
         | Inr dv \<Rightarrow>
             (case (msk, dv) of
                ((m0, m1, m2), (d0, d1, d2)) \<Rightarrow>
                  Inr (clamp255 (m0 + d0), clamp255 (m1 + d1), clamp255 (m2 + d2))))"

text \<open>
  \<^verbatim>\<open>int(round(n / 255.0))\<close> for an integer \<open>n\<close>. The division converts \<open>n\<close> to a
  double, which raises \<^verbatim>\<open>OverflowError\<close> when \<open>n\<close> rounds to a magnitude beyond the
  largest double, that is from \<open>2^1024 - 2^970\<close> on. Otherwise the quotient is a double
  next to \<open>n / 255\<close> and \<^verbatim>\<open>round\<close> takes the nearest integer, ties to even.
  Since 255 is odd, \<open>n / 255\<close> is never half-way between two integers and is at least
  \<open>1 / 510\<close> away from that. A quotient of magnitude below \<open>2^10\<close> is off by less than
  \<open>2^-43\<close> as a double, so it rounds to the same integer as the exact quotient, which is
  \<open>\<lfloor>n / 255 + 1 / 2\<rfloor> = (2 n + 255) div 510\<close>. For a larger magnitude the double result
  may differ from the exact one, but both lie outside \<open>[0, 255]\<close> on the same side, and
  the only use of the value is under \<open>clamp255\<close>.
\<close>

definition float_overflow :: int where
  "float_overflow = 2 ^ 1024 - 2 ^ 970"

definition round_div255 :: "int \<Rightarrow> error + int" where
  "round_div255 n =
     (if float_overflow \<le> \<bar>n\<bar> then Inl OverflowError
      else Inr ((2 * n + 255) div 510))"

definition apply_mask_to_color :: "rgb \<Rightarrow> mask \<Rightarrow> error + rgb" where
  "apply_mask_to_color base_rgb msk =
     (case (base_rgb, msk) of
        ((b0, b1, b2), (m0, m1, m2)) \<Rightarrow>
          (case round_div255 (b0 * m0) of
             Inl e \<Rightarrow> Inl e
           | Inr r \<Rightarrow>
               (case round_div255 (b1 * m1) of
                  Inl e \<Rightarrow> Inl e
                | Inr g \<Rightarrow>
                    (case round_div255 (b2 * m2) of
                       Inl e \<Rightarrow> Inl e
                     | Inr b \<Rightarrow> Inr (clamp255 r, clamp255 g, clamp255 b)))))"

definition manhattan :: "rgb \<Rightarrow> rgb \<Rightarrow> int" where
  "manhattan a b =
     (case (a, b) of
        ((a0, a1, a2), (b0, b1, b2)) \<Rightarrow> \<bar>a0 - b0\<bar> + \<bar>a1 - b1\<bar> + \<bar>a2 - b2\<bar>)"

subsection \<open>The session hook\<close>

text \<open>
  \<^verbatim>\<open>_sync_start_rgb_from_session\<close> runs before every request. The session entry
  \<^verbatim>\<open>start_rgb\<close> is absent (\<open>None\<close>) or a sequence; the program only ever stores
  triples of integers there, on which \<^verbatim>\<open>int\<close> is the identity. A sequence of another
  length leaves the configuration as it is.
\<close>

definition sync_start_rgb_from_session :: "int list option \<Rightarrow> config \<Rightarrow> config" where
  "sync_start_rgb_from_session s cfg =
     (case s of
        Some [s0, s1, s2] \<Rightarrow> cfg\<lparr>START_RGB := (s0, s1, s2)\<rparr>
      | _ \<Rightarrow> cfg)"

subsection \<open>Search: breadth-first over masks\<close>

text \<open>
  The local variables of \<^verbatim>\<open>find_sequence_to_target\<close> that the loop changes: the
  queue of (mask, sequence) pairs, the visited set and the best node seen so far.
\<close>

record search_state =
  q :: "(mask \<times> string list) list"
  visited :: "mask set"
  best_mask :: mask
  best_seq :: "string list"
  best_color :: rgb
  best_diff :: int

text \<open>The inner \<^verbatim>\<open>for dye in DYES\<close> loop, run on the remaining dyes.\<close>

fun expand :: "config \<Rightarrow> mask \<Rightarrow> string list \<Rightarrow> string list \<Rightarrow> search_state
    \<Rightarrow> error + search_state" where
  "expand cfg msk seq [] st = Inr st"
| "expand cfg msk seq (dye # dyes) st =
     (case apply_dye_to_mask cfg msk dye of
        Inl e \<Rightarrow> Inl e
      | Inr nxt_mask \<Rightarrow>
          (if nxt_mask \<notin> visited st
           then expand cfg msk seq dyes
                  (st\<lparr>visited := insert nxt_mask (visited st),
                      q := q st @ [(nxt_mask, seq @ [dye])]\<rparr>)
           else expand cfg msk seq dyes st))"

text \<open>
  One pass through the body of the \<^verbatim>\<open>while q\<close> loop, after \<^verbatim>\<open>q.popleft()\<close> has
  returned \<open>(mask, seq)\<close>. \<open>Continue\<close> is the end of the body or the \<^verbatim>\<open>continue\<close>
  statement, \<open>Break\<close> the \<^verbatim>\<open>break\<close> statement.
\<close>

datatype flow = Continue search_state | Break search_state

text \<open>The state a pass hands on, whichever way it ends.\<close>

fun flow_state :: "flow \<Rightarrow> search_state" where
  "flow_state (Continue st) = st"
| "flow_state (Break st) = st"

definition loop_body :: "config \<Rightarrow> rgb \<Rightarrow> rgb \<Rightarrow> int \<Rightarrow> mask \<Rightarrow> string list
    \<Rightarrow> search_state \<Rightarrow> error + flow" where
  "loop_body cfg start_rgb target_rgb max_depth msk seq st =
     (if int (length seq) > max_depth then Inr (Continue st)
      else
        (case apply_mask_to_color start_rgb msk of
           Inl e \<Rightarrow> Inl e
         | Inr color \<Rightarrow>
             (let diff = manhattan color target_rgb in
              if diff < best_diff st
              then
                (let st1 = st\<lparr>best_diff := diff, best_mask := msk,
                               best_seq := seq, best_color := color\<rparr>
                 in if best_diff st1 = 0 then Inr (Break st1)
                    else (case expand cfg msk seq DYES st1 of
                            Inl e \<Rightarrow> Inl e
                          | Inr st2 \<Rightarrow> Inr (Continue st2)))
              else (case expand cfg msk seq DYES st of
                      Inl e \<Rightarrow> Inl e
                    | Inr st2 \<Rightarrow> Inr (Continue st2)))))"

text \<open>
  The cube \<open>[0, 255]\<^sup>3\<close> of masks, and the measure of the loop: the number of cube points
  outside the visited set plus the length of the queue.
\<close>

definition mask_box :: "mask set" where
  "mask_box = {0..255} \<times> {0..255} \<times> {0..255}"

definition unexplored :: "search_state \<Rightarrow> nat" where
  "unexplored st = card (mask_box - visited st) + length (q st)"

text \<open>
  The \<^verbatim>\<open>while q\<close> loop. Its value is the state at the exit of the loop. That the
  loop terminates is proved in the section on termination.
\<close>

function bfs_loop :: "config \<Rightarrow> rgb \<Rightarrow> rgb \<Rightarrow> int \<Rightarrow> search_state \<Rightarrow> error + search_state" where
  "bfs_loop cfg start_rgb target_rgb max_depth st =
     (case q st of
        [] \<Rightarrow> Inr st
      | (msk, seq) # rest \<Rightarrow>
          (case loop_body cfg start_rgb target_rgb max_depth msk seq (st\<lparr>q := rest\<rparr>) of
             Inl e \<Rightarrow> Inl e
           | Inr (Break st') \<Rightarrow> Inr st'
           | Inr (Continue st') \<Rightarrow> bfs_loop cfg start_rgb target_rgb max_depth st'))"
  by pat_completeness auto

text \<open>
  The number of passes through the body of the same loop, which is the number of
  nodes that \<^verbatim>\<open>q.popleft()\<close> hands out. It follows the recursion of \<open>bfs_loop\<close>.
\<close>

function bfs_passes :: "config \<Rightarrow> rgb \<Rightarrow> rgb \<Rightarrow> int \<Rightarrow> search_state \<Rightarrow> nat" where
  "bfs_passes cfg start_rgb target_rgb max_depth st =
     (case q st of
        [] \<Rightarrow> 0
      | (msk, seq) # rest \<Rightarrow>
          (case loop_body cfg start_rgb target_rgb max_depth msk seq (st\<lparr>q := rest\<rparr>) of
             Inl e \<Rightarrow> 1
           | Inr (Break st') \<Rightarrow> 1
           | Inr (Continue st') \<Rightarrow> 1 + bfs_passes cfg start_rgb target_rgb max_depth st'))"
  by pat_completeness auto

text \<open>
  The locals before the loop: the start mask with the empty sequence is the only
  queue entry, the only visited mask and the best node.
\<close>

definition start_mask :: mask where
  "start_mask = (255, 255, 255)"

definition initial_state :: "rgb \<Rightarrow> rgb \<Rightarrow> error + search_state" where
  "initial_state start_rgb target_rgb =
     (case apply_mask_to_color start_rgb start_mask of
        Inl e \<Rightarrow> Inl e
      | Inr start_color \<Rightarrow>
          Inr \<lparr>q = [(start_mask, [])], visited = {start_mask},
               best_mask = start_mask, best_seq = [],
               best_color = start_color,
               best_diff = manhattan start_color target_rgb\<rparr>)"

text \<open>
  The locals of \<^verbatim>\<open>find_sequence_to_target\<close> when it reaches its \<^verbatim>\<open>return\<close>. The
  argument \<open>max_depth\<close> is \<open>None\<close> for the default of the Python parameter.
\<close>

definition effective_depth :: "config \<Rightarrow> int option \<Rightarrow> int" where
  "effective_depth cfg max_depth =
     (case max_depth of None \<Rightarrow> MAX_DEPTH cfg | Some d \<Rightarrow> d)"

definition search_exit_state :: "config \<Rightarrow> rgb \<Rightarrow> int option \<Rightarrow> error + search_state" where
  "search_exit_state cfg target_rgb max_depth =
     (let max_depth' = effective_depth cfg max_depth;
          start_rgb = START_RGB cfg
      in case initial_state start_rgb target_rgb of
           Inl e \<Rightarrow> Inl e
         | Inr st \<Rightarrow> bfs_loop cfg start_rgb target_rgb max_depth' st)"

definition find_sequence_to_target :: "config \<Rightarrow> rgb \<Rightarrow> int option
    \<Rightarrow> error + (string list \<times> mask \<times> rgb \<times> int)" where
  "find_sequence_to_target cfg target_rgb max_depth =
     (case search_exit_state cfg target_rgb max_depth of
        Inl e \<Rightarrow> Inl e
      | Inr st \<Rightarrow> Inr (best_seq st, best_mask st, best_color st, best_diff st))"

text \<open>The number of nodes one call of \<^verbatim>\<open>find_sequence_to_target\<close> dequeues.\<close>

definition search_passes :: "config \<Rightarrow> rgb \<Rightarrow> int option \<Rightarrow> nat" where
  "search_passes cfg target_rgb max_depth =
     (case initial_state (START_RGB cfg) target_rgb of
        Inl e \<Rightarrow> 0
      | Inr st \<Rightarrow>
          bfs_passes cfg (START_RGB cfg) target_rgb (effective_depth cfg max_depth) st)"

text \<open>
  Replaying a sequence: \<^verbatim>\<open>apply_dye_to_mask\<close> once per token, in order, as the
  visualizer of the result page does.
\<close>

fun apply_sequence :: "config \<Rightarrow> mask \<Rightarrow> string list \<Rightarrow> error + mask" where
  "apply_sequence cfg msk [] = Inr msk"
| "apply_sequence cfg msk (dye # dyes) =
     (case apply_dye_to_mask cfg msk dye of
        Inl e \<Rightarrow> Inl e
      | Inr nxt_mask \<Rightarrow> apply_sequence cfg nxt_mask dyes)"

text \<open>The bounds of a mask or a color: every channel in \<open>[0, 255]\<close>.\<close>

definition channels_ok :: "int \<times> int \<times> int \<Rightarrow> bool" where
  "channels_ok c =
     (case c of (c0, c1, c2) \<Rightarrow>
        0 \<le> c0 \<and> c0 \<le> 255 \<and> 0 \<le> c1 \<and> c1 \<le> 255 \<and> 0 \<le> c2 \<and> c2 \<le> 255)"

text \<open>
  A base color whose channels, multiplied by a mask channel of at most 255, stay
  below the magnitude at which the conversion to a double overflows. Every color with
  channels in \<open>[0, 255]\<close> is one.
\<close>

definition float_safe :: "rgb \<Rightarrow> bool" where
  "float_safe base_rgb =
     (case base_rgb of (b0, b1, b2) \<Rightarrow>
        \<bar>b0\<bar> * 255 < float_overflow \<and> \<bar>b1\<bar> * 255 < float_overflow
        \<and> \<bar>b2\<bar> * 255 < float_overflow)"

subsection \<open>The home route\<close>

text \<open>
  The built-in \<^verbatim>\<open>int\<close> and the form parsing of the framework are not part of the
  program. A submitted field therefore carries what \<^verbatim>\<open>int\<close> makes of its text: the
  integer it returns, or that it raises \<^verbatim>\<open>ValueError\<close>, as it does on \<^verbatim>\<open>"abc"\<close>, on
  \<^verbatim>\<open>"1e3"\<close> and on the empty text.
\<close>

datatype int_result = Raises_ValueError | Returns int

text \<open>
  \<^verbatim>\<open>int(request.form[key])\<close>. The form is the list of the submitted fields in their
  order; indexing returns the first value of the key. A missing key raises
  \<^verbatim>\<open>KeyError\<close>.
\<close>

definition form_int :: "(string \<times> int_result) list \<Rightarrow> string \<Rightarrow> error + int" where
  "form_int form key =
     (case map_of form key of
        None \<Rightarrow> Inl KeyError
      | Some Raises_ValueError \<Rightarrow> Inl ValueError
      | Some (Returns n) \<Rightarrow> Inr n)"

text \<open>
  The target of a POST to the home route: the \<^verbatim>\<open>try\<close> block builds the tuple, the
  \<^verbatim>\<open>except Exception\<close> block replaces it by \<open>(0, 0, 0)\<close>.
\<close>

definition home_target :: "(string \<times> int_result) list \<Rightarrow> rgb" where
  "home_target form =
     (case form_int form ''r'' of
        Inl e \<Rightarrow> (0, 0, 0)
      | Inr r \<Rightarrow>
          (case form_int form ''g'' of
             Inl e \<Rightarrow> (0, 0, 0)
           | Inr g \<Rightarrow>
               (case form_int form ''b'' of
                  Inl e \<Rightarrow> (0, 0, 0)
                | Inr b \<Rightarrow> (r, g, b))))"

text \<open>
  The search of a POST to the home route: the session hook runs first, then the route
  calls \<^verbatim>\<open>find_sequence_to_target(target)\<close> with the default depth.
\<close>

definition home_search :: "int list option \<Rightarrow> config \<Rightarrow> (string \<times> int_result) list
    \<Rightarrow> error + (string list \<times> mask \<times> rgb \<times> int)" where
  "home_search session_start_rgb cfg form =
     find_sequence_to_target (sync_start_rgb_from_session session_start_rgb cfg)
       (home_target form) None"

subsection \<open>Predicates on the state of the loop\<close>

text \<open>Every mask in the queue has its channels in \<open>[0, 255]\<close>.\<close>

definition queue_in_box :: "search_state \<Rightarrow> bool" where
  "queue_in_box st = (\<forall>e \<in> set (q st). fst e \<in> mask_box)"

text \<open>The best node and every queue entry pair a mask with a sequence that leads to it.\<close>

definition replayable :: "config \<Rightarrow> search_state \<Rightarrow> bool" where
  "replayable cfg st =
     (apply_sequence cfg start_mask (best_seq st) = Inr (best_mask st)
      \<and> (\<forall>e \<in> set (q st). apply_sequence cfg start_mask (snd e) = Inr (fst e)))"

text \<open>The best color and the best distance belong to the best mask.\<close>

definition best_consistent :: "rgb \<Rightarrow> rgb \<Rightarrow> search_state \<Rightarrow> bool" where
  "best_consistent start_rgb target_rgb st =
     (apply_mask_to_color start_rgb (best_mask st) = Inr (best_color st)
      \<and> best_diff st = manhattan (best_color st) target_rgb)"

text \<open>The four components of the best node.\<close>

definition best_is :: "mask \<Rightarrow> string list \<Rightarrow> rgb \<Rightarrow> int \<Rightarrow> search_state \<Rightarrow> bool" where
  "best_is msk seq color diff st =
     (best_mask st = msk \<and> best_seq st = seq \<and> best_color st = color \<and> best_diff st = diff)"

section \<open>Properties\<close>

subsection \<open>Termination of the loop\<close>

text \<open>
  Every mask that \<^verbatim>\<open>apply_dye_to_mask\<close> returns lies in the cube \<open>[0, 255]\<^sup>3\<close>, so
  the number of cube points outside the visited set bounds the masks that can still be
  enqueued. That number plus the queue length goes down in every pass of the loop: a
  pass removes one queue entry, and every entry it appends takes one point out of the
  unvisited part of the cube.
\<close>

lemma finite_mask_box: "finite mask_box"
  by (simp add: mask_box_def)

lemma clamp255_range: "0 \<le> clamp255 x \<and> clamp255 x \<le> 255"
  by (simp add: clamp255_def)

lemma apply_dye_to_mask_box:
  "apply_dye_to_mask cfg msk dye = Inr m' \<Longrightarrow> m' \<in> mask_box"
  by (auto simp: apply_dye_to_mask_def mask_box_def clamp255_range Let_def
           split: sum.splits prod.splits)

lemma unexplored_insert:
  assumes "m \<in> mask_box" "m \<notin> V"
  shows "card (mask_box - insert m V) + 1 = card (mask_box - V)"
proof -
  have fin: "finite (mask_box - V)" using finite_mask_box by simp
  have mem: "m \<in> mask_box - V" using assms by simp
  have "mask_box - insert m V = (mask_box - V) - {m}" by auto
  then have "card (mask_box - insert m V) = card (mask_box - V) - 1"
    using fin mem by simp
  moreover have "0 < card (mask_box - V)" using fin mem by (auto simp: card_gt_0_iff)
  ultimately show ?thesis by simp
qed

lemma expand_unexplored:
  "expand cfg msk seq dyes st = Inr st' \<Longrightarrow> unexplored st' \<le> unexplored st"
proof (induction dyes arbitrary: st)
  case Nil
  then show ?case by simp
next
  case (Cons dye dyes)
  from Cons.prems obtain nxt where nxt: "apply_dye_to_mask cfg msk dye = Inr nxt"
    by (auto split: sum.splits)
  show ?case
  proof (cases "nxt \<in> visited st")
    case True
    with Cons nxt show ?thesis by simp
  next
    case False
    let ?st1 = "st\<lparr>visited := insert nxt (visited st), q := q st @ [(nxt, seq @ [dye])]\<rparr>"
    from Cons.prems nxt False have "expand cfg msk seq dyes ?st1 = Inr st'" by simp
    then have "unexplored st' \<le> unexplored ?st1" by (rule Cons.IH)
    moreover have "unexplored ?st1 \<le> unexplored st"
      using unexplored_insert [OF apply_dye_to_mask_box [OF nxt] False]
      by (simp add: unexplored_def)
    ultimately show ?thesis by simp
  qed
qed

lemma loop_body_unexplored:
  "loop_body cfg start_rgb target_rgb max_depth msk seq st = Inr (Continue st')
   \<Longrightarrow> unexplored st' \<le> unexplored st"
  by (auto simp: loop_body_def Let_def unexplored_def
           split: if_splits sum.splits dest!: expand_unexplored)

lemma loop_body_decreases:
  assumes "q st = (msk, seq) # rest"
    and "loop_body cfg start_rgb target_rgb max_depth msk seq (st\<lparr>q := rest\<rparr>) = Inr (Continue st')"
  shows "unexplored st' < unexplored st"
proof -
  have "unexplored st' \<le> unexplored (st\<lparr>q := rest\<rparr>)"
    using assms(2) by (rule loop_body_unexplored)
  also have "\<dots> < unexplored st"
    using assms(1) by (simp add: unexplored_def)
  finally show ?thesis .
qed

termination bfs_loop
  by (relation "measure (\<lambda>(cfg, start_rgb, target_rgb, max_depth, st). unexplored st)")
     (auto dest: loop_body_decreases)

termination bfs_passes
  by (relation "measure (\<lambda>(cfg, start_rgb, target_rgb, max_depth, st). unexplored st)")
     (auto dest: loop_body_decreases)

declare bfs_loop.simps [simp del]
declare bfs_passes.simps [simp del]

subsection \<open>The rounding\<close>

text \<open>
  The integer that \<open>round_div255\<close> computes is the exact quotient rounded to the nearest
  integer, and the exact quotient is never a tie.
\<close>

lemma round_div255_nearest:
  "(2 * n + 255) div 510 = round (real_of_int n / 255)"
proof -
  have "real_of_int n / 255 + 1 / 2 = real_of_int (2 * n + 255) / real_of_int 510"
    by simp
  then have "round (real_of_int n / 255) = \<lfloor>real_of_int (2 * n + 255) / real_of_int 510\<rfloor>"
    by (simp only: round_def)
  also have "\<dots> = (2 * n + 255) div 510"
    by (rule floor_divide_of_int_eq)
  finally show ?thesis by simp
qed

lemma round_div255_no_tie:
  "real_of_int n / 255 \<noteq> real_of_int k + 1 / 2"
proof
  assume "real_of_int n / 255 = real_of_int k + 1 / 2"
  then have "real_of_int (2 * n) = real_of_int (510 * k + 255)"
    by (simp add: field_simps)
  then have "2 * n = 510 * k + 255"
    by (simp only: of_int_eq_iff)
  then show False by presburger
qed

subsection \<open>Bounds, replay and the inner loop\<close>

lemma mask_box_channels_ok: "m \<in> mask_box \<longleftrightarrow> channels_ok m"
  by (cases m) (auto simp: mask_box_def channels_ok_def)

lemma start_mask_box: "start_mask \<in> mask_box"
  by (simp add: start_mask_def mask_box_def)

lemma apply_mask_to_color_box:
  "apply_mask_to_color base_rgb msk = Inr c \<Longrightarrow> c \<in> mask_box"
  by (auto simp: apply_mask_to_color_def mask_box_def clamp255_range
           split: sum.splits prod.splits)

lemma apply_sequence_box:
  "apply_sequence cfg msk dyes = Inr m' \<Longrightarrow> msk \<in> mask_box \<Longrightarrow> m' \<in> mask_box"
proof (induction dyes arbitrary: msk)
  case Nil
  then show ?case by simp
next
  case (Cons dye dyes)
  then show ?case
    by (auto split: sum.splits dest: apply_dye_to_mask_box)
qed

lemma apply_sequence_snoc:
  "apply_sequence cfg msk (dyes @ [dye]) =
     (case apply_sequence cfg msk dyes of
        Inl e \<Rightarrow> Inl e
      | Inr m' \<Rightarrow> apply_dye_to_mask cfg m' dye)"
  by (induction dyes arbitrary: msk) (auto split: sum.splits)

lemma apply_dye_to_mask_known:
  "dye \<in> set DYES \<Longrightarrow> \<exists>m'. apply_dye_to_mask cfg msk dye = Inr m'"
  by (cases msk) (auto simp: DYES_def apply_dye_to_mask_def dye_vector_def Let_def)

lemma expand_returns:
  "set dyes \<subseteq> set DYES \<Longrightarrow> \<exists>st'. expand cfg msk seq dyes st = Inr st'"
proof (induction dyes arbitrary: st)
  case Nil
  then show ?case by simp
next
  case (Cons dye dyes)
  then obtain m' where "apply_dye_to_mask cfg msk dye = Inr m'"
    using apply_dye_to_mask_known [of dye cfg msk] by auto
  with Cons show ?case by simp
qed

lemma expand_best:
  "expand cfg msk seq dyes st = Inr st' \<Longrightarrow>
     best_seq st' = best_seq st \<and> best_mask st' = best_mask st
     \<and> best_color st' = best_color st \<and> best_diff st' = best_diff st"
proof (induction dyes arbitrary: st)
  case Nil
  then show ?case by simp
next
  case (Cons dye dyes)
  then show ?case
    by (fastforce split: sum.splits if_splits)
qed

lemma expand_queue:
  assumes "expand cfg msk seq dyes st = Inr st'"
    and "\<forall>e \<in> set (q st). P e"
    and "\<And>dye m'. apply_dye_to_mask cfg msk dye = Inr m' \<Longrightarrow> P (m', seq @ [dye])"
  shows "\<forall>e \<in> set (q st'). P e"
  using assms(1,2)
proof (induction dyes arbitrary: st)
  case Nil
  then show ?case by simp
next
  case (Cons dye dyes)
  from Cons.prems(1) obtain nxt where nxt: "apply_dye_to_mask cfg msk dye = Inr nxt"
    by (auto split: sum.splits)
  show ?case
  proof (cases "nxt \<in> visited st")
    case True
    with Cons nxt show ?thesis by simp
  next
    case False
    let ?st1 = "st\<lparr>visited := insert nxt (visited st), q := q st @ [(nxt, seq @ [dye])]\<rparr>"
    have "expand cfg msk seq dyes ?st1 = Inr st'"
      using Cons.prems(1) nxt False by simp
    moreover have "\<forall>e \<in> set (q ?st1). P e"
      using Cons.prems(2) assms(3) [OF nxt] by simp
    ultimately show ?thesis by (rule Cons.IH)
  qed
qed

lemma bfs_loop_invariant:
  assumes "bfs_loop cfg start_rgb target_rgb max_depth st = Inr st'"
    and "I st"
    and step: "\<And>st msk seq rest fl. I st \<Longrightarrow> q st = (msk, seq) # rest \<Longrightarrow>
           loop_body cfg start_rgb target_rgb max_depth msk seq (st\<lparr>q := rest\<rparr>) = Inr fl
           \<Longrightarrow> I (flow_state fl)"
  shows "I st'"
  using assms
proof (induction cfg start_rgb target_rgb max_depth st rule: bfs_loop.induct)
  case (1 cfg start_rgb target_rgb max_depth st)
  note step = "1.prems"(3)
  show ?case
  proof (cases "q st")
    case Nil
    with "1.prems" show ?thesis by (simp add: bfs_loop.simps [of _ _ _ _ st])
  next
    case (Cons n rest)
    obtain msk seq where n: "n = (msk, seq)" by (cases n)
    show ?thesis
    proof (cases "loop_body cfg start_rgb target_rgb max_depth msk seq (st\<lparr>q := rest\<rparr>)")
      case (Inl e)
      with "1.prems" Cons n show ?thesis by (simp add: bfs_loop.simps [of _ _ _ _ st])
    next
      case (Inr fl)
      have Ifl: "I (flow_state fl)"
        using step [OF "1.prems"(2) _ Inr] Cons n by simp
      show ?thesis
      proof (cases fl)
        case (Continue st1)
        have "bfs_loop cfg start_rgb target_rgb max_depth st1 = Inr st'"
          using "1.prems"(1) Cons n Inr Continue by (simp add: bfs_loop.simps [of _ _ _ _ st])
        moreover have "I st1" using Ifl Continue by simp
        ultimately show ?thesis
          using "1.IH" [OF Cons n [symmetric] Inr Continue] step by blast
      next
        case (Break st1)
        with "1.prems"(1) Cons n Inr Ifl show ?thesis
          by (simp add: bfs_loop.simps [of _ _ _ _ st])
      qed
    qed
  qed
qed

subsection \<open>The search returns\<close>

lemma float_safe_channels_ok: "channels_ok c \<Longrightarrow> float_safe c"
  by (cases c) (auto simp: channels_ok_def float_safe_def float_overflow_def)

lemma round_div255_safe:
  assumes "\<bar>b\<bar> * 255 < float_overflow" "0 \<le> m" "m \<le> 255"
  shows "\<exists>r. round_div255 (b * m) = Inr r"
proof -
  have "\<bar>b * m\<bar> = \<bar>b\<bar> * m" using assms(2) by (simp add: abs_mult)
  also have "\<dots> \<le> \<bar>b\<bar> * 255" using assms(3) by (simp add: mult_left_mono)
  finally have "\<bar>b * m\<bar> < float_overflow" using assms(1) by simp
  then show ?thesis by (simp add: round_div255_def)
qed

lemma apply_mask_to_color_safe:
  assumes "float_safe base_rgb" "msk \<in> mask_box"
  shows "\<exists>c. apply_mask_to_color base_rgb msk = Inr c"
proof -
  obtain b0 b1 b2 where b: "base_rgb = (b0, b1, b2)" by (cases base_rgb)
  obtain m0 m1 m2 where m: "msk = (m0, m1, m2)" by (cases msk)
  from assms b m obtain r g bl where
    "round_div255 (b0 * m0) = Inr r" "round_div255 (b1 * m1) = Inr g"
    "round_div255 (b2 * m2) = Inr bl"
    using round_div255_safe [of b0 m0] round_div255_safe [of b1 m1] round_div255_safe [of b2 m2]
    by (auto simp: float_safe_def mask_box_def)
  then show ?thesis by (simp add: apply_mask_to_color_def b m)
qed

lemma apply_mask_to_color_float_safe:
  assumes "apply_mask_to_color base_rgb start_mask = Inr c"
  shows "float_safe base_rgb"
proof -
  obtain b0 b1 b2 where b: "base_rgb = (b0, b1, b2)" by (cases base_rgb)
  have "\<bar>x * 255\<bar> = \<bar>x\<bar> * 255" for x :: int by (simp add: abs_mult)
  with assms b show ?thesis
    by (auto simp: apply_mask_to_color_def start_mask_def float_safe_def round_div255_def
             split: sum.splits if_splits)
qed

lemma loop_body_cases [consumes 1, case_names skip exact better same]:
  assumes "loop_body cfg start_rgb target_rgb max_depth msk seq st = Inr fl"
  obtains
    "max_depth < int (length seq)" "fl = Continue st"
  | c where "\<not> max_depth < int (length seq)" "apply_mask_to_color start_rgb msk = Inr c"
      "manhattan c target_rgb < best_diff st" "manhattan c target_rgb = 0"
      "fl = Break (st\<lparr>best_diff := manhattan c target_rgb, best_mask := msk,
                        best_seq := seq, best_color := c\<rparr>)"
  | c st2 where "\<not> max_depth < int (length seq)" "apply_mask_to_color start_rgb msk = Inr c"
      "manhattan c target_rgb < best_diff st" "manhattan c target_rgb \<noteq> 0"
      "expand cfg msk seq DYES (st\<lparr>best_diff := manhattan c target_rgb, best_mask := msk,
                                     best_seq := seq, best_color := c\<rparr>) = Inr st2"
      "fl = Continue st2"
  | c st2 where "\<not> max_depth < int (length seq)" "apply_mask_to_color start_rgb msk = Inr c"
      "\<not> manhattan c target_rgb < best_diff st"
      "expand cfg msk seq DYES st = Inr st2" "fl = Continue st2"
proof (cases "max_depth < int (length seq)")
  case True
  with assms that(1) show ?thesis by (simp add: loop_body_def)
next
  case False
  from assms False obtain c where c: "apply_mask_to_color start_rgb msk = Inr c"
    by (auto simp: loop_body_def split: sum.splits)
  show ?thesis
  proof (cases "manhattan c target_rgb < best_diff st")
    case better: True
    show ?thesis
    proof (cases "manhattan c target_rgb = 0")
      case True
      with assms False c better that(2) show ?thesis
        by (simp add: loop_body_def Let_def)
    next
      case nz: False
      with assms False c better that(3) show ?thesis
        by (auto simp: loop_body_def Let_def split: sum.splits)
    qed
  next
    case worse: False
    with assms False c that(4) show ?thesis
      by (auto simp: loop_body_def Let_def split: sum.splits)
  qed
qed

lemma loop_body_queue_in_box:
  assumes "loop_body cfg start_rgb target_rgb max_depth msk seq st = Inr fl"
    and "queue_in_box st"
  shows "queue_in_box (flow_state fl)"
proof -
  have ex: "queue_in_box st2" if "expand cfg msk seq DYES st1 = Inr st2" "queue_in_box st1"
    for st1 st2
    using expand_queue [OF that(1), of "\<lambda>e. fst e \<in> mask_box"] that(2)
    by (auto simp: queue_in_box_def dest: apply_dye_to_mask_box)
  from assms(1) show ?thesis
  proof (cases rule: loop_body_cases)
    case skip
    with assms(2) show ?thesis by simp
  next
    case (exact c)
    with assms(2) show ?thesis by (simp add: queue_in_box_def)
  next
    case (better c st2)
    from ex [OF better(5)] assms(2) better(6) show ?thesis by (simp add: queue_in_box_def)
  next
    case (same c st2)
    from ex [OF same(4) assms(2)] same(5) show ?thesis by simp
  qed
qed

lemma loop_body_returns:
  assumes "float_safe start_rgb" "msk \<in> mask_box"
  shows "\<exists>fl. loop_body cfg start_rgb target_rgb max_depth msk seq st = Inr fl"
proof -
  obtain c where c: "apply_mask_to_color start_rgb msk = Inr c"
    using apply_mask_to_color_safe [OF assms] by auto
  have ex: "\<exists>st'. expand cfg msk seq DYES st1 = Inr st'" for st1
    by (rule expand_returns) simp
  obtain st2 where st2: "expand cfg msk seq DYES st = Inr st2" using ex by blast
  obtain st3 where st3:
    "expand cfg msk seq DYES (st\<lparr>best_diff := manhattan c target_rgb, best_mask := msk,
                                   best_seq := seq, best_color := c\<rparr>) = Inr st3"
    using ex by blast
  show ?thesis
    using c st2 st3 by (simp add: loop_body_def Let_def)
qed

lemma bfs_loop_returns:
  "float_safe start_rgb \<Longrightarrow> queue_in_box st
   \<Longrightarrow> \<exists>st'. bfs_loop cfg start_rgb target_rgb max_depth st = Inr st'"
proof (induction cfg start_rgb target_rgb max_depth st rule: bfs_loop.induct)
  case (1 cfg start_rgb target_rgb max_depth st)
  show ?case
  proof (cases "q st")
    case Nil
    then show ?thesis by (simp add: bfs_loop.simps [of _ _ _ _ st])
  next
    case (Cons n rest)
    obtain msk seq where n: "n = (msk, seq)" by (cases n)
    have box: "msk \<in> mask_box" and rest: "queue_in_box (st\<lparr>q := rest\<rparr>)"
      using "1.prems"(2) Cons n by (auto simp: queue_in_box_def)
    obtain fl where fl:
      "loop_body cfg start_rgb target_rgb max_depth msk seq (st\<lparr>q := rest\<rparr>) = Inr fl"
      using loop_body_returns [OF "1.prems"(1) box] by blast
    have inv: "queue_in_box (flow_state fl)"
      by (rule loop_body_queue_in_box [OF fl rest])
    show ?thesis
    proof (cases fl)
      case (Continue st1)
      with "1.IH" [OF Cons n [symmetric] fl Continue "1.prems"(1)] inv
      show ?thesis using Cons n fl by (simp add: bfs_loop.simps [of _ _ _ _ st])
    next
      case (Break st1)
      then show ?thesis using Cons n fl by (simp add: bfs_loop.simps [of _ _ _ _ st])
    qed
  qed
qed

lemma initial_state_returns:
  "float_safe start_rgb \<Longrightarrow> \<exists>st. initial_state start_rgb target_rgb = Inr st"
  using apply_mask_to_color_safe [OF _ start_mask_box, of start_rgb]
  by (auto simp: initial_state_def)

lemma initial_state_queue_in_box:
  "initial_state start_rgb target_rgb = Inr st \<Longrightarrow> queue_in_box st"
  using start_mask_box
  by (auto simp: initial_state_def queue_in_box_def split: sum.splits)

lemma search_exit_state_returns:
  assumes "float_safe (START_RGB cfg)"
  shows "\<exists>st. search_exit_state cfg target_rgb max_depth = Inr st"
proof -
  obtain st0 where st0: "initial_state (START_RGB cfg) target_rgb = Inr st0"
    using initial_state_returns [OF assms] by blast
  from bfs_loop_returns [OF assms initial_state_queue_in_box [OF st0]] st0
  show ?thesis by (simp add: search_exit_state_def Let_def)
qed

lemma apply_mask_to_color_error:
  "apply_mask_to_color base_rgb msk = Inl e \<Longrightarrow> e = OverflowError"
  by (auto simp: apply_mask_to_color_def round_div255_def
           split: prod.splits sum.splits if_splits)

lemma search_exit_state_error:
  assumes "search_exit_state cfg target_rgb max_depth = Inl e"
  shows "e = OverflowError \<and> \<not> float_safe (START_RGB cfg)"
proof -
  have nsafe: "\<not> float_safe (START_RGB cfg)"
    using search_exit_state_returns [of cfg target_rgb max_depth] assms by auto
  have "\<not> (\<exists>c. apply_mask_to_color (START_RGB cfg) start_mask = Inr c)"
    using nsafe apply_mask_to_color_float_safe by blast
  then obtain e' where e': "apply_mask_to_color (START_RGB cfg) start_mask = Inl e'"
    by (cases "apply_mask_to_color (START_RGB cfg) start_mask") auto
  then have "initial_state (START_RGB cfg) target_rgb = Inl OverflowError"
    using apply_mask_to_color_error [OF e'] by (simp add: initial_state_def)
  with assms nsafe show ?thesis by (simp add: search_exit_state_def Let_def)
qed

subsection \<open>Invariants of the best node\<close>

lemma search_exit_state_cases [consumes 1]:
  assumes "search_exit_state cfg target_rgb max_depth = Inr st"
  obtains start_color where
    "apply_mask_to_color (START_RGB cfg) start_mask = Inr start_color"
    "bfs_loop cfg (START_RGB cfg) target_rgb (effective_depth cfg max_depth)
       \<lparr>q = [(start_mask, [])], visited = {start_mask},
        best_mask = start_mask, best_seq = [],
        best_color = start_color,
        best_diff = manhattan start_color target_rgb\<rparr> = Inr st"
  using assms
  by (auto simp: search_exit_state_def initial_state_def Let_def split: sum.splits)

lemma find_sequence_to_target_cases [consumes 1]:
  assumes "find_sequence_to_target cfg target_rgb max_depth = Inr (seq, msk, color, diff)"
  obtains st where "search_exit_state cfg target_rgb max_depth = Inr st"
    "seq = best_seq st" "msk = best_mask st" "color = best_color st" "diff = best_diff st"
  using assms by (auto simp: find_sequence_to_target_def split: sum.splits)

lemma loop_body_replayable:
  assumes "loop_body cfg start_rgb target_rgb max_depth msk seq (st\<lparr>q := rest\<rparr>) = Inr fl"
    and "replayable cfg st" and "q st = (msk, seq) # rest"
  shows "replayable cfg (flow_state fl)"
proof -
  have node: "apply_sequence cfg start_mask seq = Inr msk"
    using assms(2,3) by (simp add: replayable_def)
  have rest: "\<forall>e \<in> set rest. apply_sequence cfg start_mask (snd e) = Inr (fst e)"
    using assms(2,3) by (simp add: replayable_def)
  have child: "apply_sequence cfg start_mask (snd (m', seq @ [dye])) = Inr (fst (m', seq @ [dye]))"
    if "apply_dye_to_mask cfg msk dye = Inr m'" for dye m'
    using that node by (simp add: apply_sequence_snoc)
  from assms(1) show ?thesis
  proof (cases rule: loop_body_cases)
    case skip
    with assms(2,3) show ?thesis by (simp add: replayable_def)
  next
    case (exact c)
    with node rest show ?thesis by (simp add: replayable_def)
  next
    case (better c st2)
    from expand_queue [OF better(5), of "\<lambda>e. apply_sequence cfg start_mask (snd e) = Inr (fst e)"]
      rest child
    have "\<forall>e \<in> set (q st2). apply_sequence cfg start_mask (snd e) = Inr (fst e)" by simp
    moreover from expand_best [OF better(5)] node
    have "apply_sequence cfg start_mask (best_seq st2) = Inr (best_mask st2)" by simp
    ultimately show ?thesis using better(6) by (simp add: replayable_def)
  next
    case (same c st2)
    from expand_queue [OF same(4), of "\<lambda>e. apply_sequence cfg start_mask (snd e) = Inr (fst e)"]
      rest child
    have "\<forall>e \<in> set (q st2). apply_sequence cfg start_mask (snd e) = Inr (fst e)" by simp
    moreover from expand_best [OF same(4)] assms(2)
    have "apply_sequence cfg start_mask (best_seq st2) = Inr (best_mask st2)"
      by (simp add: replayable_def)
    ultimately show ?thesis using same(5) by (simp add: replayable_def)
  qed
qed

lemma search_exit_state_replayable:
  assumes "search_exit_state cfg target_rgb max_depth = Inr st"
  shows "apply_sequence cfg start_mask (best_seq st) = Inr (best_mask st)"
  using assms
proof (cases rule: search_exit_state_cases)
  case (1 start_color)
  have "replayable cfg st"
  proof (rule bfs_loop_invariant [OF 1(2), of "replayable cfg"])
    show "replayable cfg
       \<lparr>q = [(start_mask, [])], visited = {start_mask}, best_mask = start_mask, best_seq = [],
        best_color = start_color, best_diff = manhattan start_color target_rgb\<rparr>"
      by (simp add: replayable_def)
  next
    fix st msk seq rest fl
    assume "replayable cfg st" and "q st = (msk, seq) # rest"
      and "loop_body cfg (START_RGB cfg) target_rgb (effective_depth cfg max_depth) msk seq
             (st\<lparr>q := rest\<rparr>) = Inr fl"
    then show "replayable cfg (flow_state fl)"
      using loop_body_replayable by blast
  qed
  then show ?thesis by (simp add: replayable_def)
qed

lemma loop_body_best_consistent:
  assumes "loop_body cfg start_rgb target_rgb max_depth msk seq st = Inr fl"
    and "best_consistent start_rgb target_rgb st"
  shows "best_consistent start_rgb target_rgb (flow_state fl)"
  using assms(1)
proof (cases rule: loop_body_cases)
  case skip
  with assms(2) show ?thesis by simp
next
  case (exact c)
  then show ?thesis by (simp add: best_consistent_def)
next
  case (better c st2)
  with expand_best [OF better(5)] show ?thesis by (simp add: best_consistent_def)
next
  case (same c st2)
  with expand_best [OF same(4)] assms(2) show ?thesis by (simp add: best_consistent_def)
qed

lemma search_exit_state_best_consistent:
  assumes "search_exit_state cfg target_rgb max_depth = Inr st"
  shows "best_consistent (START_RGB cfg) target_rgb st"
  using assms
proof (cases rule: search_exit_state_cases)
  case (1 start_color)
  show ?thesis
  proof (rule bfs_loop_invariant [OF 1(2), of "best_consistent (START_RGB cfg) target_rgb"])
    show "best_consistent (START_RGB cfg) target_rgb
       \<lparr>q = [(start_mask, [])], visited = {start_mask}, best_mask = start_mask, best_seq = [],
        best_color = start_color, best_diff = manhattan start_color target_rgb\<rparr>"
      using 1(1) by (simp add: best_consistent_def)
  next
    fix st msk seq rest fl
    assume "best_consistent (START_RGB cfg) target_rgb st"
      and "loop_body cfg (START_RGB cfg) target_rgb (effective_depth cfg max_depth) msk seq
             (st\<lparr>q := rest\<rparr>) = Inr fl"
    then show "best_consistent (START_RGB cfg) target_rgb (flow_state fl)"
      using loop_body_best_consistent [of cfg "START_RGB cfg" target_rgb _ msk seq "st\<lparr>q := rest\<rparr>" fl]
      by (simp add: best_consistent_def)
  qed
qed

lemma loop_body_best_seq_length:
  assumes "loop_body cfg start_rgb target_rgb max_depth msk seq st = Inr fl"
    and "int (length (best_seq st)) \<le> max_depth"
  shows "int (length (best_seq (flow_state fl))) \<le> max_depth"
  using assms(1)
proof (cases rule: loop_body_cases)
  case skip
  with assms(2) show ?thesis by simp
next
  case (exact c)
  then show ?thesis by simp
next
  case (better c st2)
  with expand_best [OF better(5)] show ?thesis by simp
next
  case (same c st2)
  with expand_best [OF same(4)] assms(2) show ?thesis by simp
qed

lemma search_exit_state_best_seq_length:
  assumes "search_exit_state cfg target_rgb max_depth = Inr st"
    and "0 \<le> effective_depth cfg max_depth"
  shows "int (length (best_seq st)) \<le> effective_depth cfg max_depth"
  using assms(1)
proof (cases rule: search_exit_state_cases)
  case (1 start_color)
  show ?thesis
  proof (rule bfs_loop_invariant [OF 1(2),
        of "\<lambda>st. int (length (best_seq st)) \<le> effective_depth cfg max_depth"])
    show "int (length (best_seq \<lparr>q = [(start_mask, [])], visited = {start_mask},
        best_mask = start_mask, best_seq = [], best_color = start_color,
        best_diff = manhattan start_color target_rgb\<rparr>)) \<le> effective_depth cfg max_depth"
      using assms(2) by simp
  next
    fix st msk seq rest fl
    assume "int (length (best_seq st)) \<le> effective_depth cfg max_depth"
      and "loop_body cfg (START_RGB cfg) target_rgb (effective_depth cfg max_depth) msk seq
             (st\<lparr>q := rest\<rparr>) = Inr fl"
    then show "int (length (best_seq (flow_state fl))) \<le> effective_depth cfg max_depth"
      using loop_body_best_seq_length [of cfg "START_RGB cfg" target_rgb _ msk seq "st\<lparr>q := rest\<rparr>" fl]
      by simp
  qed
qed

lemma manhattan_nonneg: "0 \<le> manhattan a b"
  by (cases a, cases b) (simp add: manhattan_def)

lemma manhattan_zero_iff: "manhattan a b = 0 \<longleftrightarrow> a = b"
  by (cases a, cases b) (auto simp: manhattan_def)

lemma loop_body_best_zero:
  assumes "loop_body cfg start_rgb target_rgb max_depth msk seq st = Inr fl"
    and "best_is m0 s0 c0 0 st"
  shows "best_is m0 s0 c0 0 (flow_state fl)"
  using assms(1)
proof (cases rule: loop_body_cases)
  case skip
  with assms(2) show ?thesis by simp
next
  case (exact c)
  with assms(2) manhattan_nonneg [of c target_rgb] show ?thesis by (simp add: best_is_def)
next
  case (better c st2)
  with assms(2) manhattan_nonneg [of c target_rgb] show ?thesis by (simp add: best_is_def)
next
  case (same c st2)
  with expand_best [OF same(4)] assms(2) show ?thesis by (simp add: best_is_def)
qed

lemma search_exit_state_exact_start:
  assumes "apply_mask_to_color (START_RGB cfg) start_mask = Inr target_rgb"
  shows "\<exists>st. search_exit_state cfg target_rgb max_depth = Inr st
           \<and> best_is start_mask [] target_rgb 0 st"
proof -
  have safe: "float_safe (START_RGB cfg)"
    using assms by (rule apply_mask_to_color_float_safe)
  then obtain st where st: "search_exit_state cfg target_rgb max_depth = Inr st"
    using search_exit_state_returns by blast
  from st have "best_is start_mask [] target_rgb 0 st"
  proof (cases rule: search_exit_state_cases)
    case (1 start_color)
    with assms have sc: "start_color = target_rgb" by simp
    show ?thesis
    proof (rule bfs_loop_invariant [OF 1(2), of "best_is start_mask [] target_rgb 0"])
      show "best_is start_mask [] target_rgb 0
         \<lparr>q = [(start_mask, [])], visited = {start_mask}, best_mask = start_mask,
          best_seq = [], best_color = start_color,
          best_diff = manhattan start_color target_rgb\<rparr>"
        using sc by (simp add: best_is_def manhattan_zero_iff)
    next
      fix st msk seq rest fl
      assume "best_is start_mask [] target_rgb 0 st"
        and "loop_body cfg (START_RGB cfg) target_rgb (effective_depth cfg max_depth) msk seq
               (st\<lparr>q := rest\<rparr>) = Inr fl"
      then show "best_is start_mask [] target_rgb 0 (flow_state fl)"
        using loop_body_best_zero [of cfg "START_RGB cfg" target_rgb _ msk seq "st\<lparr>q := rest\<rparr>" fl]
        by (simp add: best_is_def)
    qed
  qed
  with st show ?thesis by blast
qed

subsection \<open>Configuration entries read by the search, and the number of passes\<close>

lemma apply_dye_to_mask_config:
  "ADD_VALUE cfg = ADD_VALUE cfg' \<Longrightarrow> SUB_VALUE cfg = SUB_VALUE cfg'
   \<Longrightarrow> apply_dye_to_mask cfg msk dye = apply_dye_to_mask cfg' msk dye"
  by (simp add: apply_dye_to_mask_def)

lemma expand_config:
  "ADD_VALUE cfg = ADD_VALUE cfg' \<Longrightarrow> SUB_VALUE cfg = SUB_VALUE cfg'
   \<Longrightarrow> expand cfg msk seq dyes st = expand cfg' msk seq dyes st"
proof (induction dyes arbitrary: st)
  case Nil
  then show ?case by simp
next
  case (Cons dye dyes)
  then show ?case
    by (simp add: apply_dye_to_mask_config [of cfg cfg'] split: sum.splits)
qed

lemma loop_body_config:
  assumes "ADD_VALUE cfg = ADD_VALUE cfg'" "SUB_VALUE cfg = SUB_VALUE cfg'"
  shows "loop_body cfg start_rgb target_rgb max_depth msk seq st
       = loop_body cfg' start_rgb target_rgb max_depth msk seq st"
proof -
  have eq: "expand cfg = expand cfg'"
    by (intro ext) (rule expand_config [OF assms])
  show ?thesis unfolding loop_body_def eq ..
qed

lemma bfs_loop_config:
  "ADD_VALUE cfg = ADD_VALUE cfg' \<Longrightarrow> SUB_VALUE cfg = SUB_VALUE cfg'
   \<Longrightarrow> bfs_loop cfg start_rgb target_rgb max_depth st
       = bfs_loop cfg' start_rgb target_rgb max_depth st"
proof (induction cfg start_rgb target_rgb max_depth st rule: bfs_loop.induct)
  case (1 cfg start_rgb target_rgb max_depth st)
  note body = loop_body_config [OF "1.prems", of start_rgb target_rgb max_depth]
  show ?case
  proof (cases "q st")
    case Nil
    then show ?thesis
      by (simp add: bfs_loop.simps [of cfg _ _ _ st] bfs_loop.simps [of cfg' _ _ _ st])
  next
    case (Cons n rest)
    obtain msk seq where n: "n = (msk, seq)" by (cases n)
    show ?thesis
    proof (cases "loop_body cfg start_rgb target_rgb max_depth msk seq (st\<lparr>q := rest\<rparr>)")
      case (Inl e)
      with Cons n body show ?thesis
        by (simp add: bfs_loop.simps [of cfg _ _ _ st] bfs_loop.simps [of cfg' _ _ _ st])
    next
      case (Inr fl)
      show ?thesis
      proof (cases fl)
        case (Continue st1)
        from "1.IH" [OF Cons n [symmetric] Inr Continue "1.prems"] Cons n Inr Continue body
        show ?thesis
          by (simp add: bfs_loop.simps [of cfg _ _ _ st] bfs_loop.simps [of cfg' _ _ _ st])
      next
        case (Break st1)
        with Cons n Inr body show ?thesis
          by (simp add: bfs_loop.simps [of cfg _ _ _ st] bfs_loop.simps [of cfg' _ _ _ st])
      qed
    qed
  qed
qed

lemma bfs_passes_le_unexplored:
  "bfs_passes cfg start_rgb target_rgb max_depth st \<le> unexplored st"
proof (induction cfg start_rgb target_rgb max_depth st rule: bfs_passes.induct)
  case (1 cfg start_rgb target_rgb max_depth st)
  show ?case
  proof (cases "q st")
    case Nil
    then show ?thesis by (simp add: bfs_passes.simps [of _ _ _ _ st])
  next
    case (Cons n rest)
    obtain msk seq where n: "n = (msk, seq)" by (cases n)
    have pos: "1 \<le> unexplored st" using Cons by (simp add: unexplored_def)
    show ?thesis
    proof (cases "loop_body cfg start_rgb target_rgb max_depth msk seq (st\<lparr>q := rest\<rparr>)")
      case (Inl e)
      with Cons n pos show ?thesis by (simp add: bfs_passes.simps [of _ _ _ _ st])
    next
      case (Inr fl)
      show ?thesis
      proof (cases fl)
        case (Continue st1)
        have "unexplored st1 < unexplored st"
          using loop_body_decreases [of st msk seq rest] Cons n Inr Continue by simp
        with "1.IH" [OF Cons n [symmetric] Inr Continue] Cons n Inr Continue
        show ?thesis by (simp add: bfs_passes.simps [of _ _ _ _ st])
      next
        case (Break st1)
        with Cons n Inr pos show ?thesis by (simp add: bfs_passes.simps [of _ _ _ _ st])
      qed
    qed
  qed
qed

lemma card_mask_box: "card mask_box = 256 ^ 3"
  by (simp add: mask_box_def card_cartesian_product)

lemma search_passes_bound: "search_passes cfg target_rgb max_depth \<le> 256 ^ 3"
proof (cases "initial_state (START_RGB cfg) target_rgb")
  case (Inl e)
  then show ?thesis by (simp add: search_passes_def)
next
  case (Inr st)
  then have q: "q st = [(start_mask, [])]" and v: "visited st = {start_mask}"
    by (auto simp: initial_state_def split: sum.splits)
  have "card (mask_box - {start_mask}) = card mask_box - 1"
    using start_mask_box finite_mask_box by simp
  then have "unexplored st = 256 ^ 3"
    using q v by (simp add: unexplored_def card_mask_box)
  with bfs_passes_le_unexplored [of cfg "START_RGB cfg" target_rgb "effective_depth cfg max_depth" st]
    Inr show ?thesis by (simp add: search_passes_def)
qed

subsection \<open>A negative depth bound and evaluation at concrete inputs\<close>

lemma bfs_loop_negative_depth:
  assumes "max_depth < 0"
  shows "bfs_loop cfg start_rgb target_rgb max_depth
           \<lparr>q = [(start_mask, [])], visited = {start_mask}, best_mask = start_mask,
            best_seq = [], best_color = c, best_diff = d\<rparr>
         = Inr \<lparr>q = [], visited = {start_mask}, best_mask = start_mask,
                best_seq = [], best_color = c, best_diff = d\<rparr>"
  using assms by (simp add: bfs_loop.simps loop_body_def)

text \<open>The defining equations that evaluate one call of the search at a concrete input.\<close>

lemmas search_defs =
  find_sequence_to_target_def search_exit_state_def search_passes_def initial_state_def
  effective_depth_def loop_body_def apply_mask_to_color_def apply_dye_to_mask_def
  dye_vector_def round_div255_def float_overflow_def clamp255_def manhattan_def
  start_mask_def DYES_def initial_config_def Let_def bfs_loop.simps bfs_passes.simps

section \<open>The claims\<close>

text \<open>
  C1 (early termination at distance 0). The \<^verbatim>\<open>break\<close> sits inside the branch
  \<^verbatim>\<open>if diff < best_diff\<close>, and \<open>best_diff\<close> starts as the distance of the start node.
  A start node of distance 0 is therefore no improvement and the loop goes on. With the
  initial configuration and the base color \<open>(241, 219, 29)\<close> as target: the state before
  the loop has \<open>best_diff = 0\<close>; the pass that evaluates the start node ends in
  \<open>Continue\<close> with the four children enqueued; with depth 1 the loop dequeues 21 nodes,
  not 1; the returned node is still the start node.
\<close>

theorem exact_start_node_keeps_searching:
  "initial_state (241, 219, 29) (241, 219, 29) =
     Inr \<lparr>q = [(start_mask, [])], visited = {start_mask}, best_mask = start_mask,
          best_seq = [], best_color = (241, 219, 29), best_diff = 0\<rparr>
   \<and> loop_body initial_config (241, 219, 29) (241, 219, 29) 48 start_mask []
       \<lparr>q = [], visited = {start_mask}, best_mask = start_mask,
        best_seq = [], best_color = (241, 219, 29), best_diff = 0\<rparr> =
     Inr (Continue
       \<lparr>q = [((255, 239, 239), [''red'']), ((239, 255, 239), [''green'']),
             ((239, 239, 255), [''blue'']), ((223, 223, 223), [''black''])],
        visited = {(223, 223, 223), (239, 239, 255), (239, 255, 239), (255, 239, 239),
                   start_mask},
        best_mask = start_mask, best_seq = [], best_color = (241, 219, 29),
        best_diff = 0\<rparr>)
   \<and> search_passes initial_config (241, 219, 29) (Some 1) = 21
   \<and> find_sequence_to_target initial_config (241, 219, 29) (Some 1) =
       Inr ([], (255, 255, 255), (241, 219, 29), 0)"
  by (simp add: search_defs)

text \<open>
  C2 (no ambient state), as stated: two calls with the same arguments return the same
  result whatever the configuration and the session hold. The search reads the base
  color from the configuration, and the session hook writes the session's
  \<^verbatim>\<open>start_rgb\<close> into the configuration before each request: the same call
  \<^verbatim>\<open>find_sequence_to_target((10, 10, 10), 0)\<close> returns distance 30 after a session
  with \<^verbatim>\<open>start_rgb = [0, 0, 0]\<close> and distance 459 without one.
\<close>

theorem session_changes_search_result:
  "find_sequence_to_target (sync_start_rgb_from_session (Some [0, 0, 0]) initial_config)
     (10, 10, 10) (Some 0)
   \<noteq> find_sequence_to_target (sync_start_rgb_from_session None initial_config)
     (10, 10, 10) (Some 0)"
  by (simp add: search_defs sync_start_rgb_from_session_def)

text \<open>
  C2, amended: the result of \<^verbatim>\<open>find_sequence_to_target\<close> is a function of its
  target, of the configuration entries \<^verbatim>\<open>START_RGB\<close>, \<^verbatim>\<open>ADD_VALUE\<close> and
  \<^verbatim>\<open>SUB_VALUE\<close> at the time of the call, and of the depth bound, which is the argument
  \<^verbatim>\<open>max_depth\<close> or, without one, the entry \<^verbatim>\<open>MAX_DEPTH\<close>. Two calls that agree on
  these return the same result; nothing else is read and no state of one call reaches
  the next.
\<close>

theorem search_reads_four_config_entries:
  assumes "START_RGB cfg = START_RGB cfg'"
    and "ADD_VALUE cfg = ADD_VALUE cfg'"
    and "SUB_VALUE cfg = SUB_VALUE cfg'"
    and "effective_depth cfg max_depth = effective_depth cfg' max_depth'"
  shows "find_sequence_to_target cfg target_rgb max_depth
       = find_sequence_to_target cfg' target_rgb max_depth'"
proof -
  have eq: "bfs_loop cfg = bfs_loop cfg'"
    by (intro ext) (rule bfs_loop_config [OF assms(2,3)])
  show ?thesis
    unfolding find_sequence_to_target_def search_exit_state_def eq assms(1,4) ..
qed

theorem search_reads_four_config_entries_witness:
  "START_RGB initial_config = START_RGB (initial_config\<lparr>MAX_DEPTH := 7\<rparr>)
   \<and> ADD_VALUE initial_config = ADD_VALUE (initial_config\<lparr>MAX_DEPTH := 7\<rparr>)
   \<and> SUB_VALUE initial_config = SUB_VALUE (initial_config\<lparr>MAX_DEPTH := 7\<rparr>)
   \<and> effective_depth initial_config None
       = effective_depth (initial_config\<lparr>MAX_DEPTH := 7\<rparr>) (Some 48)
   \<and> find_sequence_to_target initial_config (12, 200, 99) None
       = find_sequence_to_target (initial_config\<lparr>MAX_DEPTH := 7\<rparr>) (12, 200, 99) (Some 48)"
  using search_reads_four_config_entries
    [of initial_config "initial_config\<lparr>MAX_DEPTH := 7\<rparr>" None "Some 48" "(12, 200, 99)"]
  by (simp add: initial_config_def effective_depth_def)

text \<open>
  C3 (typed validation errors), as stated: a malformed target, a channel outside
  \<open>[0, 255]\<close> or a negative depth bound makes the computation fail before the search.
  With a field \<^verbatim>\<open>r\<close> on whose text \<^verbatim>\<open>int\<close> raises \<^verbatim>\<open>ValueError\<close> (as on
  \<^verbatim>\<open>"abc"\<close>), the home route takes \<open>(0, 0, 0)\<close> as target and searches for that
  (distance 489 to black, here with the configured depth \<open>-1\<close>); the target
  \<open>(300, -5, 0)\<close> and the depth \<open>-1\<close> are searched as they are.
\<close>

theorem malformed_target_searched_as_black:
  "home_target [(''r'', Raises_ValueError), (''g'', Returns 20), (''b'', Returns 30)] = (0, 0, 0)
   \<and> home_search None (initial_config\<lparr>MAX_DEPTH := - 1\<rparr>)
        [(''r'', Raises_ValueError), (''g'', Returns 20), (''b'', Returns 30)]
       = Inr ([], (255, 255, 255), (241, 219, 29), 489)
   \<and> home_target [(''r'', Returns 300), (''g'', Returns (- 5)), (''b'', Returns 0)]
       = (300, - 5, 0)
   \<and> find_sequence_to_target initial_config (300, - 5, 0) (Some (- 1))
       = Inr ([], (255, 255, 255), (241, 219, 29), 312)"
  by (simp add: search_defs home_search_def home_target_def form_int_def
        sync_start_rgb_from_session_def)

text \<open>
  C3, amended: no input is rejected. When \<^verbatim>\<open>int(request.form[key])\<close> raises for one of
  the three target fields, because the field is missing or \<^verbatim>\<open>int\<close> rejects its text,
  the home route searches for \<open>(0, 0, 0)\<close>. The search accepts every integer target and
  every integer depth bound: its only failure is the \<^verbatim>\<open>OverflowError\<close> raised when a
  channel of the base color times 255 is too large to convert to a double, whatever
  the target and the depth. With a negative depth bound it returns the start node.
\<close>

theorem no_input_validation:
  "(isl (form_int form ''r'') \<or> isl (form_int form ''g'') \<or> isl (form_int form ''b'')
      \<longrightarrow> home_target form = (0, 0, 0))
   \<and> (find_sequence_to_target cfg target_rgb max_depth = Inl e
      \<longrightarrow> e = OverflowError \<and> \<not> float_safe (START_RGB cfg))
   \<and> (effective_depth cfg max_depth < 0
      \<longrightarrow> apply_mask_to_color (START_RGB cfg) start_mask = Inr c
      \<longrightarrow> find_sequence_to_target cfg target_rgb max_depth
          = Inr ([], start_mask, c, manhattan c target_rgb))"
proof -
  have malformed: "home_target form = (0, 0, 0)"
    if "isl (form_int form ''r'') \<or> isl (form_int form ''g'') \<or> isl (form_int form ''b'')"
    using that by (auto simp: home_target_def isl_def split: sum.splits)
  have failure: "e = OverflowError \<and> \<not> float_safe (START_RGB cfg)"
    if "find_sequence_to_target cfg target_rgb max_depth = Inl e"
  proof -
    from that have "search_exit_state cfg target_rgb max_depth = Inl e"
      by (simp add: find_sequence_to_target_def split: sum.splits)
    then show ?thesis by (rule search_exit_state_error)
  qed
  have negative: "find_sequence_to_target cfg target_rgb max_depth
      = Inr ([], start_mask, c, manhattan c target_rgb)"
    if "effective_depth cfg max_depth < 0"
      and "apply_mask_to_color (START_RGB cfg) start_mask = Inr c"
    using that
    by (simp add: find_sequence_to_target_def search_exit_state_def initial_state_def
          bfs_loop_negative_depth)
  from malformed failure negative show ?thesis by blast
qed

theorem no_input_validation_witness:
  "isl (form_int [(''g'', Raises_ValueError), (''b'', Returns 7)] ''r'')
   \<and> home_target [(''g'', Raises_ValueError), (''b'', Returns 7)] = (0, 0, 0)
   \<and> find_sequence_to_target (initial_config\<lparr>START_RGB := (2 ^ 1024, 0, 0)\<rparr>) (0, 0, 0) None
       = Inl OverflowError
   \<and> \<not> float_safe (START_RGB (initial_config\<lparr>START_RGB := (2 ^ 1024, 0, 0)\<rparr>))
   \<and> effective_depth initial_config (Some (- 3)) < 0
   \<and> apply_mask_to_color (START_RGB initial_config) start_mask = Inr (241, 219, 29)
   \<and> find_sequence_to_target initial_config (999, 0, - 1) (Some (- 3))
       = Inr ([], start_mask, (241, 219, 29), manhattan (241, 219, 29) (999, 0, - 1))"
proof -
  have r: "isl (form_int [(''g'', Raises_ValueError), (''b'', Returns 7)] ''r'')"
    by (simp add: form_int_def)
  have ov: "find_sequence_to_target (initial_config\<lparr>START_RGB := (2 ^ 1024, 0, 0)\<rparr>) (0, 0, 0) None
       = Inl OverflowError"
    by (simp add: search_defs)
  have d: "effective_depth initial_config (Some (- 3)) < 0"
    by (simp add: effective_depth_def)
  have c: "apply_mask_to_color (START_RGB initial_config) start_mask = Inr (241, 219, 29)"
    by (simp add: search_defs)
  from no_input_validation
    [where form = "[(''g'', Raises_ValueError), (''b'', Returns 7)]"
       and cfg = "initial_config\<lparr>START_RGB := (2 ^ 1024, 0, 0)\<rparr>"
       and target_rgb = "(0, 0, 0)" and max_depth = None and e = OverflowError]
  have a: "home_target [(''g'', Raises_ValueError), (''b'', Returns 7)] = (0, 0, 0)"
    and b: "\<not> float_safe (START_RGB (initial_config\<lparr>START_RGB := (2 ^ 1024, 0, 0)\<rparr>))"
    using r ov by simp_all
  from no_input_validation
    [where cfg = initial_config and max_depth = "Some (- 3)" and c = "(241, 219, 29)"
       and target_rgb = "(999, 0, - 1)"]
  have e: "find_sequence_to_target initial_config (999, 0, - 1) (Some (- 3))
       = Inr ([], start_mask, (241, 219, 29), manhattan (241, 219, 29) (999, 0, - 1))"
    using d c by simp
  from r a ov b d c e show ?thesis by simp
qed

text \<open>
  C4 (exact-match short-circuit). If the target is the base color seen through the
  identity mask, the search returns the empty sequence, the identity mask and distance
  0, for every depth bound: an argument, the configured default, zero or negative.
\<close>

theorem exact_match_short_circuit:
  assumes "apply_mask_to_color (START_RGB cfg) start_mask = Inr target_rgb"
  shows "find_sequence_to_target cfg target_rgb max_depth = Inr ([], start_mask, target_rgb, 0)"
  using search_exit_state_exact_start [OF assms, of max_depth]
  by (auto simp: find_sequence_to_target_def best_is_def)

theorem exact_match_short_circuit_witness:
  "apply_mask_to_color (START_RGB initial_config) start_mask = Inr (241, 219, 29)
   \<and> find_sequence_to_target initial_config (241, 219, 29) (Some 0)
       = Inr ([], start_mask, (241, 219, 29), 0)"
proof -
  have h: "apply_mask_to_color (START_RGB initial_config) start_mask = Inr (241, 219, 29)"
    by (simp add: search_defs)
  from exact_match_short_circuit [OF h, of "Some 0"] h show ?thesis by simp
qed

text \<open>
  C5 (depth bound). With a depth bound of at least 0 the returned sequence is no
  longer than the bound. With bound 0 the result is the start node: the empty sequence,
  the identity mask, its color and its distance.
\<close>

theorem depth_bound_respected:
  assumes "0 \<le> effective_depth cfg max_depth"
    and "find_sequence_to_target cfg target_rgb max_depth = Inr (seq, msk, color, diff)"
  shows "int (length seq) \<le> effective_depth cfg max_depth
     \<and> (effective_depth cfg max_depth = 0 \<longrightarrow>
          seq = [] \<and> msk = start_mask
          \<and> apply_mask_to_color (START_RGB cfg) start_mask = Inr color
          \<and> diff = manhattan color target_rgb)"
  using assms(2)
proof (cases rule: find_sequence_to_target_cases)
  case (1 st)
  have len: "int (length seq) \<le> effective_depth cfg max_depth"
    using search_exit_state_best_seq_length [OF 1(1) assms(1)] 1(2) by simp
  have replay: "apply_sequence cfg start_mask seq = Inr msk"
    using search_exit_state_replayable [OF 1(1)] 1(2,3) by simp
  have cons: "apply_mask_to_color (START_RGB cfg) msk = Inr color"
    "diff = manhattan color target_rgb"
    using search_exit_state_best_consistent [OF 1(1)] 1(3,4,5)
    by (simp_all add: best_consistent_def)
  show ?thesis
  proof (intro conjI impI)
    assume "effective_depth cfg max_depth = 0"
    with len show "seq = []" by simp
    with replay show "msk = start_mask" by simp
    with cons show "apply_mask_to_color (START_RGB cfg) start_mask = Inr color" by simp
  qed (use len cons in simp_all)
qed

theorem depth_bound_respected_witness:
  "0 \<le> effective_depth initial_config (Some 0)
   \<and> find_sequence_to_target initial_config (255, 0, 0) (Some 0)
       = Inr ([], (255, 255, 255), (241, 219, 29), 262)
   \<and> int (length ([] :: string list)) \<le> effective_depth initial_config (Some 0)
   \<and> effective_depth initial_config (Some 0) = 0
   \<and> (255, 255, 255) = start_mask
   \<and> apply_mask_to_color (START_RGB initial_config) start_mask = Inr (241, 219, 29)
   \<and> 262 = manhattan (241, 219, 29) (255, 0, 0)"
proof -
  have d: "0 \<le> effective_depth initial_config (Some 0)"
    by (simp add: effective_depth_def)
  have f: "find_sequence_to_target initial_config (255, 0, 0) (Some 0)
       = Inr ([], (255, 255, 255), (241, 219, 29), 262)"
    by (simp add: search_defs)
  from depth_bound_respected [OF d f] d f show ?thesis
    by (simp add: effective_depth_def)
qed

text \<open>
  C6 (replay). Applying the dyes of the returned sequence in order to the identity
  mask, with the same add and sub values, gives the returned mask.
\<close>

theorem replay_reproduces_best_mask:
  assumes "find_sequence_to_target cfg target_rgb max_depth = Inr (seq, msk, color, diff)"
  shows "apply_sequence cfg start_mask seq = Inr msk"
  using assms
proof (cases rule: find_sequence_to_target_cases)
  case (1 st)
  with search_exit_state_replayable [OF 1(1)] show ?thesis by simp
qed

theorem replay_reproduces_best_mask_witness:
  "find_sequence_to_target (initial_config\<lparr>MAX_DEPTH := 1\<rparr>) (255, 0, 0) None
     = Inr ([''red''], (255, 239, 239), (241, 205, 27), 246)
   \<and> apply_sequence (initial_config\<lparr>MAX_DEPTH := 1\<rparr>) start_mask [''red'']
     = Inr (255, 239, 239)"
proof -
  have f: "find_sequence_to_target (initial_config\<lparr>MAX_DEPTH := 1\<rparr>) (255, 0, 0) None
     = Inr ([''red''], (255, 239, 239), (241, 205, 27), 246)"
    by (simp add: search_defs)
  from replay_reproduces_best_mask [OF f] f show ?thesis by simp
qed

text \<open>
  C7 (clamping). For all add and sub values: the mask after one dye, every mask
  reached from the identity mask by a sequence of dyes, every color that
  \<^verbatim>\<open>apply_mask_to_color\<close> returns, and the mask and color that the search returns
  have all three channels in \<open>[0, 255]\<close>.
\<close>

theorem clamping_invariant:
  "(apply_dye_to_mask cfg msk dye = Inr msk' \<longrightarrow> channels_ok msk')
   \<and> (apply_sequence cfg start_mask dyes = Inr reached \<longrightarrow> channels_ok reached)
   \<and> (apply_mask_to_color base_rgb any_mask = Inr color \<longrightarrow> channels_ok color)
   \<and> (find_sequence_to_target cfg target_rgb max_depth = Inr (seq, b_mask, b_color, b_diff)
        \<longrightarrow> channels_ok b_mask \<and> channels_ok b_color)"
proof -
  have result: "channels_ok b_mask \<and> channels_ok b_color"
    if f: "find_sequence_to_target cfg target_rgb max_depth = Inr (seq, b_mask, b_color, b_diff)"
    using f
  proof (cases rule: find_sequence_to_target_cases)
    case (1 st)
    have "apply_sequence cfg start_mask seq = Inr b_mask"
      using search_exit_state_replayable [OF 1(1)] 1(2,3) by simp
    then have "b_mask \<in> mask_box"
      using start_mask_box by (rule apply_sequence_box)
    moreover have "apply_mask_to_color (START_RGB cfg) b_mask = Inr b_color"
      using search_exit_state_best_consistent [OF 1(1)] 1(3,4)
      by (simp add: best_consistent_def)
    then have "b_color \<in> mask_box" by (rule apply_mask_to_color_box)
    ultimately show ?thesis by (simp add: mask_box_channels_ok)
  qed
  show ?thesis
    using apply_dye_to_mask_box [of cfg msk dye msk']
      apply_sequence_box [OF _ start_mask_box, of cfg dyes reached]
      apply_mask_to_color_box [of base_rgb any_mask color] result
    by (simp add: mask_box_channels_ok)
qed

theorem clamping_invariant_witness:
  "apply_dye_to_mask (initial_config\<lparr>ADD_VALUE := 1000, SUB_VALUE := - 300\<rparr>)
      (0, 128, 255) ''green'' = Inr (255, 255, 255)
   \<and> channels_ok (255, 255, 255)
   \<and> apply_sequence (initial_config\<lparr>ADD_VALUE := 1000, SUB_VALUE := - 300\<rparr>)
       start_mask [''red'', ''black''] = Inr (223, 223, 223)
   \<and> channels_ok (223, 223, 223)
   \<and> apply_mask_to_color (1000, - 219, 29) (223, 223, 223) = Inr (255, 0, 25)
   \<and> channels_ok (255, 0, 25)
   \<and> find_sequence_to_target (initial_config\<lparr>ADD_VALUE := 1000, SUB_VALUE := - 300\<rparr>)
       (0, 0, 0) (Some 1) = Inr ([''black''], (223, 223, 223), (211, 192, 25), 428)
   \<and> channels_ok (211, 192, 25)"
proof -
  let ?cfg = "initial_config\<lparr>ADD_VALUE := 1000, SUB_VALUE := - 300\<rparr>"
  have a: "apply_dye_to_mask ?cfg (0, 128, 255) ''green'' = Inr (255, 255, 255)"
    by (simp add: search_defs)
  have b: "apply_sequence ?cfg start_mask [''red'', ''black''] = Inr (223, 223, 223)"
    by (simp add: search_defs)
  have c: "apply_mask_to_color (1000, - 219, 29) (223, 223, 223) = Inr (255, 0, 25)"
    by (simp add: search_defs)
  have d: "find_sequence_to_target ?cfg (0, 0, 0) (Some 1)
      = Inr ([''black''], (223, 223, 223), (211, 192, 25), 428)"
    by (simp add: search_defs)
  from clamping_invariant
    [where cfg = ?cfg and msk = "(0, 128, 255)" and dye = "''green''"
       and msk' = "(255, 255, 255)" and dyes = "[''red'', ''black'']"
       and reached = "(223, 223, 223)" and base_rgb = "(1000, - 219, 29)"
       and any_mask = "(223, 223, 223)" and color = "(255, 0, 25)"
       and target_rgb = "(0, 0, 0)" and max_depth = "Some 1" and seq = "[''black'']"
       and b_mask = "(223, 223, 223)" and b_color = "(211, 192, 25)" and b_diff = 428]
    a b c d
  show ?thesis by simp
qed

text \<open>
  C8 (dye deltas). \<^verbatim>\<open>dye_vector\<close> returns \<open>(+add, -sub, -sub)\<close> for red,
  \<open>(-sub, +add, -sub)\<close> for green, \<open>(-sub, -sub, +add)\<close> for blue and \<open>(-32, -32, -32)\<close>
  for black, the last whatever add and sub are.
\<close>

theorem dye_vector_deltas:
  "dye_vector ''red'' add_val sub_val = Inr (add_val, - sub_val, - sub_val)
   \<and> dye_vector ''green'' add_val sub_val = Inr (- sub_val, add_val, - sub_val)
   \<and> dye_vector ''blue'' add_val sub_val = Inr (- sub_val, - sub_val, add_val)
   \<and> dye_vector ''black'' add_val sub_val = Inr (- 32, - 32, - 32)
   \<and> dye_vector ''black'' add_val sub_val = dye_vector ''black'' add_val' sub_val'"
  by (simp add: dye_vector_def)

text \<open>
  C9 (termination). For every base color whose channels times 255 can be converted
  to a double (every color with channels in \<open>[0, 255]\<close> is one), every target, all add
  and sub values and every depth bound, however large, the search returns a result,
  and its loop dequeues at most \<open>256\<^sup>3\<close> nodes, the number of masks.
\<close>

theorem search_terminates:
  assumes "float_safe (START_RGB cfg)"
  shows "(\<exists>result. find_sequence_to_target cfg target_rgb max_depth = Inr result)
     \<and> search_passes cfg target_rgb max_depth \<le> 256 ^ 3"
proof -
  obtain st where "search_exit_state cfg target_rgb max_depth = Inr st"
    using search_exit_state_returns [OF assms] by blast
  then have "find_sequence_to_target cfg target_rgb max_depth
      = Inr (best_seq st, best_mask st, best_color st, best_diff st)"
    by (simp add: find_sequence_to_target_def)
  then have "\<exists>result. find_sequence_to_target cfg target_rgb max_depth = Inr result" ..
  then show ?thesis
    using search_passes_bound [of cfg target_rgb max_depth] by (rule conjI)
qed

theorem search_terminates_witness:
  "float_safe (START_RGB initial_config)
   \<and> (\<exists>result. find_sequence_to_target initial_config (7, 7, 7) (Some (10 ^ 100)) = Inr result)
   \<and> search_passes initial_config (7, 7, 7) (Some (10 ^ 100)) \<le> 256 ^ 3"
proof -
  have h: "float_safe (START_RGB initial_config)"
    by (simp add: initial_config_def float_safe_def float_overflow_def)
  from search_terminates [OF h] h show ?thesis by blast
qed



end
